theory Spec2Isabelle
  imports Main "HOL-Library.Extended_Nat" "HOL-Library.Multiset"
begin

section \<open>Data model\<close>

text \<open>
  The forms list (\<open>forms-list.component.tsx\<close>, kept as \<open>src/unnamed/part_000\<close>) and the
  forms dashboard (\<open>forms-dashboard.component.tsx\<close>) work on \<open>CompletedFormInfo\<close> values.
  Of a \<open>Form\<close> the two components read \<open>uuid\<close>, \<open>name\<close> and the optional \<open>display\<close>.
\<close>

record form =
  uuid :: string
  name :: string
  display :: "string option"

record completedFormInfo =
  form :: form
  lastCompletedDate :: "nat option"
  associatedEncounters :: "string list"

text \<open>
  Function values passed as props (\<open>loadMore\<close>, \<open>onSearch\<close>) are compared by identity in
  dependency arrays, so a callback is modelled by an identifier.
\<close>

type_synonym callback = nat

datatype error = TypeError

section \<open>Local fuzzy filtering (\<open>filteredForms\<close>, part_000 lines 118-137)\<close>

text \<open>
  The scoring function of the \<open>fuzzy\<close> package is a parameter \<open>fz\<close> of the model:
  \<open>fz pattern str\<close> is \<open>None\<close> when \<open>fuzzy.match\<close> returns \<open>null\<close> and \<open>Some s\<close> when it
  returns a match of score \<open>s\<close>. A score is a JavaScript number that is a non-negative
  integer or \<open>Infinity\<close> (the package's score of an exact match), hence an \<open>enat\<close>.
\<close>

type_synonym matcher = "string \<Rightarrow> string \<Rightarrow> enat option"

record 'a fuzzy_result =
  score :: enat
  index :: nat
  original :: 'a

text \<open>
  \<open>Array.prototype.sort\<close> with a comparison function is a stable sort. \<open>le a b\<close> stands for
  "the comparator applied to \<open>(a, b)\<close> is not positive", a \<open>NaN\<close> result counting as \<open>0\<close>
  as the language prescribes. With a consistent comparator every stable sort returns
  the same array, here computed by insertion from the right.
\<close>

fun insort_by :: "('a \<Rightarrow> 'a \<Rightarrow> bool) \<Rightarrow> 'a \<Rightarrow> 'a list \<Rightarrow> 'a list" where
  "insort_by le x [] = [x]"
| "insort_by le x (y # ys) = (if le x y then x # y # ys else y # insort_by le x ys)"

definition js_sort :: "('a \<Rightarrow> 'a \<Rightarrow> bool) \<Rightarrow> 'a list \<Rightarrow> 'a list" where
  "js_sort le xs = foldr (insort_by le) xs []"

text \<open>
  The comparator of line 135, \<open>(r1, r2) => r2.score - r1.score\<close>: not positive exactly
  when \<open>r2.score \<le> r1.score\<close> (\<open>Infinity - Infinity\<close> is \<open>NaN\<close>, a tie).
\<close>

definition by_score :: "'a fuzzy_result \<Rightarrow> 'a fuzzy_result \<Rightarrow> bool" where
  "by_score r1 r2 \<longleftrightarrow> score r2 \<le> score r1"

text \<open>
  Modelled from the spec: \<open>fuzzy.filter\<close> belongs to the \<open>fuzzy\<close> package, which is not
  among the sources. The spec describes it as the matches of the term against the
  extracted key of each item, "ranked by match score descending (ties: stable, preserve
  original order)". The package collects one result per matching element, with the
  element's array index, and sorts by score, breaking ties by index; an empty array
  gives an empty result.
\<close>

fun collect_matches ::
  "matcher \<Rightarrow> string \<Rightarrow> ('a \<Rightarrow> string) \<Rightarrow> nat \<Rightarrow> 'a list \<Rightarrow> 'a fuzzy_result list" where
  "collect_matches fz pattern extract idx [] = []"
| "collect_matches fz pattern extract idx (element # rest) =
     (case fz pattern (extract element) of
        None \<Rightarrow> collect_matches fz pattern extract (Suc idx) rest
      | Some sc \<Rightarrow> \<lparr>score = sc, index = idx, original = element\<rparr>
                   # collect_matches fz pattern extract (Suc idx) rest)"

definition by_score_then_index :: "'a fuzzy_result \<Rightarrow> 'a fuzzy_result \<Rightarrow> bool" where
  "by_score_then_index a b \<longleftrightarrow>
     (if score b \<noteq> score a then score b < score a else index a \<le> index b)"

definition fuzzy_filter ::
  "matcher \<Rightarrow> string \<Rightarrow> 'a list \<Rightarrow> ('a \<Rightarrow> string) \<Rightarrow> 'a fuzzy_result list" where
  "fuzzy_filter fz pattern arr extract =
     (if arr = [] then []
      else js_sort by_score_then_index (collect_matches fz pattern extract 0 arr))"

text \<open>The \<open>extract\<close> option of line 134: \<open>formInfo.form.display ?? formInfo.form.name\<close>.\<close>

definition extract_name :: "completedFormInfo \<Rightarrow> string" where
  "extract_name formInfo =
     (case display (form formInfo) of Some d \<Rightarrow> d | None \<Rightarrow> name (form formInfo))"

text \<open>
  \<open>filteredForms\<close>: \<open>completedForms\<close> may be \<open>undefined\<close> (\<open>None\<close>); the empty string is the
  only falsy search term.
\<close>

definition filteredForms ::
  "matcher \<Rightarrow> callback option \<Rightarrow> string \<Rightarrow> completedFormInfo list option
    \<Rightarrow> completedFormInfo list option" where
  "filteredForms fz onSearch searchTerm completedForms =
     (if onSearch \<noteq> None \<and> searchTerm \<noteq> [] then completedForms
      else if searchTerm = [] then completedForms
      else (case completedForms of
              None \<Rightarrow> Some []
            | Some fs \<Rightarrow>
                if fs = [] then Some []
                else Some (map original
                       (js_sort by_score (fuzzy_filter fz searchTerm fs extract_name)))))"

text \<open>
  Two abbreviations for what the code computes on the way: whether the scoring function
  accepts the name the code extracts from an item, and the score it returns (\<open>0\<close> stands
  in for an item that does not match).
\<close>

definition matches :: "matcher \<Rightarrow> string \<Rightarrow> completedFormInfo \<Rightarrow> bool" where
  "matches fz t formInfo \<longleftrightarrow> fz t (extract_name formInfo) \<noteq> None"

definition match_score :: "matcher \<Rightarrow> string \<Rightarrow> completedFormInfo \<Rightarrow> enat" where
  "match_score fz t formInfo =
     (case fz t (extract_name formInfo) of Some s \<Rightarrow> s | None \<Rightarrow> 0)"

text \<open>
  The key of the fuzzy match as the spec words it (section 4.1), written down apart from
  the code's \<open>extract\<close> function so that the two can be compared: "display name or
  fallback to identifier name", that is the form's name when it has no display name.
\<close>

definition display_or_name :: "completedFormInfo \<Rightarrow> string" where
  "display_or_name item =
     (if display (form item) = None then name (form item) else the (display (form item)))"

section \<open>The forms dashboard (\<open>forms-dashboard.component.tsx\<close>)\<close>

text \<open>
  A configured section (\<open>config.formSections\<close>) has a \<open>name\<close> and the list \<open>forms\<close> of the
  uuids or names it accepts; the fields carry a prefix here because \<open>name\<close> is already a
  field of \<open>form\<close>. Line 126 spreads the section and adds \<open>availableForms\<close>.
\<close>

record formSection =
  section_name :: string
  section_forms :: "string list"

record dashboard_section = formSection +
  availableForms :: "completedFormInfo list option"

text \<open>
  \<open>sections\<close> (lines 124-131). \<open>config.formSections?.map\<close> is \<open>undefined\<close> when the
  configuration has no \<open>formSections\<close>, and \<open>forms?.filter\<close> is \<open>undefined\<close> when the
  forms have not been fetched.
\<close>

definition in_section :: "formSection \<Rightarrow> completedFormInfo \<Rightarrow> bool" where
  "in_section formSection formInfo =
     list_ex (\<lambda>formConfig. uuid (form formInfo) = formConfig \<or> name (form formInfo) = formConfig)
       (section_forms formSection)"

definition sections ::
  "formSection list option \<Rightarrow> completedFormInfo list option \<Rightarrow> dashboard_section list option" where
  "sections formSections forms =
     map_option
       (map (\<lambda>formSection.
          \<lparr>section_name = section_name formSection,
           section_forms = section_forms formSection,
           availableForms = map_option (filter (in_section formSection)) forms\<rparr>))
       formSections"

text \<open>
  The props of \<open>FormsList\<close> (part_000 lines 11-25) that decide what is rendered, searched
  and observed. \<open>error\<close> is only tested for truthiness. \<open>totalLoaded\<close> and \<open>handleFormOpen\<close>
  are passed through to the table and play no part in the controller.
\<close>

record formsListProps =
  completedForms :: "completedFormInfo list option"
  error :: bool
  sectionName :: string
  onSearch :: "callback option"
  isValidating :: bool
  loadMore :: "callback option"
  hasMore :: bool
  isLoading :: bool
  enableInfiniteScrolling :: bool
  isSearching :: bool

text \<open>
  What the dashboard destructures from the data hooks (lines 57-75): the forms and the
  flags of the fetch. The hooks themselves are external collaborators.
\<close>

record formsResult =
  forms :: "completedFormInfo list option"
  fetch_error :: bool
  fetch_isValidating :: bool
  fetch_loadMore :: "callback option"
  fetch_hasMore :: bool
  fetch_isLoading :: bool

text \<open>
  Lines 40 and 67-75: the infinite result is used when a search query is set or infinite
  scrolling is on; otherwise the regular result, without \<open>loadMore\<close> and with \<open>hasMore\<close> and
  \<open>isLoading\<close> false.
\<close>

definition useInfiniteScrolling :: "bool option \<Rightarrow> bool \<Rightarrow> bool" where
  "useInfiniteScrolling enableInfiniteScrollingProp configured =
     (case enableInfiniteScrollingProp of Some b \<Rightarrow> b | None \<Rightarrow> configured)"

definition current_result :: "string \<Rightarrow> bool \<Rightarrow> formsResult \<Rightarrow> formsResult \<Rightarrow> formsResult" where
  "current_result searchQuery scrolling infiniteFormsResult regularFormsResult =
     (if searchQuery \<noteq> [] \<or> scrolling then infiniteFormsResult
      else regularFormsResult
             \<lparr>fetch_loadMore := None, fetch_hasMore := False, fetch_isLoading := False\<rparr>)"

text \<open>
  What the dashboard renders (lines 124-197): the searching skeleton, the empty-state
  tile, or a container holding \<open>FormsList\<close> elements, given by their props. The memoized
  \<open>sections\<close> value is computed first; reading \<open>sections.length\<close> of an \<open>undefined\<close> value
  throws a \<open>TypeError\<close>. The unsectioned list gets no \<open>sectionName\<close>, so the default
  \<open>'forms'\<close> applies. \<open>handleSearch\<close> is the dashboard's debounced function.
\<close>

datatype dashboard_view = SearchingState | EmptyState | Lists "formsListProps list"

definition list_props ::
  "formsResult \<Rightarrow> bool \<Rightarrow> bool \<Rightarrow> callback \<Rightarrow> completedFormInfo list option \<Rightarrow> string
    \<Rightarrow> formsListProps" where
  "list_props r scrolling searching handleSearch cf sname =
     \<lparr>completedForms = cf, error = fetch_error r, sectionName = sname,
      onSearch = Some handleSearch, isValidating = fetch_isValidating r,
      loadMore = fetch_loadMore r, hasMore = fetch_hasMore r, isLoading = fetch_isLoading r,
      enableInfiniteScrolling = scrolling, isSearching = searching\<rparr>"

definition FormsDashboard ::
  "formSection list option \<Rightarrow> formsResult \<Rightarrow> bool \<Rightarrow> bool \<Rightarrow> callback
    \<Rightarrow> error + dashboard_view" where
  "FormsDashboard formSections r scrolling searching handleSearch =
     (let memo = sections formSections (forms r)
      in if searching then Inr SearchingState
         else if forms r = Some [] \<and> \<not> searching
                 \<and> \<not> fetch_isLoading r \<and> \<not> fetch_isValidating r
           then Inr EmptyState
         else (case memo of
                 None \<Rightarrow> Inl TypeError
               | Some secs \<Rightarrow>
                   if length secs = 0
                   then Inr (Lists [list_props r scrolling searching handleSearch
                                      (forms r) ''forms''])
                   else Inr (Lists (map (\<lambda>sec.
                          list_props r scrolling searching handleSearch
                            (availableForms sec) (section_name sec)) secs))))"

section \<open>Debounced search (\<open>handleSearch\<close>)\<close>

text \<open>
  Modelled from the spec: \<open>debounce\<close> belongs to \<open>lodash-es\<close>, which is not among the
  sources. The spec (sections 4.1 and 5): "only after 500ms of no further calls does it
  commit \<open>term\<close>", "only the most recent \<open>submit\<close> call within the 500ms window survives;
  earlier pending commits are cancelled (standard trailing-edge debounce)". A debounced
  function therefore holds at most one pending call: the time at which it falls due and
  the argument of the latest call. Time is a clock counting milliseconds.
\<close>

type_synonym 'a timer = "(nat \<times> 'a) option"

definition debounce_wait :: nat where
  "debounce_wait = 500"

definition debounced_call :: "nat \<Rightarrow> 'a \<Rightarrow> 'a timer \<Rightarrow> 'a timer" where
  "debounced_call now a tm = Some (now + debounce_wait, a)"

definition timer_due :: "nat \<Rightarrow> 'a timer \<Rightarrow> 'a option" where
  "timer_due now tm =
     (case tm of None \<Rightarrow> None | Some (due, a) \<Rightarrow> if due \<le> now then Some a else None)"






text \<open>
  The function debounced by the dashboard (lines 117-122) sets \<open>isSearching\<close> and the
  search query, which is the key of the remote fetch.
\<close>

record dashboard_state =
  searchQuery :: string
  isSearching_state :: bool



section \<open>The forms list as a mounted component (part_000)\<close>

text \<open>
  What \<open>FormsList\<close> returns (lines 139-253): one of the early returns, or the table, with
  or without the "load more" sentinel \<open>div\<close> of lines 212-221. \<open>tableRows\<close> has one row per
  filtered form.
\<close>

datatype formsList_view =
  LoadingSkeleton | SearchingSkeleton | EmptyFragment | NoSearchResults | FormsTableView bool

definition FormsList_view :: "matcher \<Rightarrow> formsListProps \<Rightarrow> string \<Rightarrow> formsList_view" where
  "FormsList_view fz p searchTerm =
     (let tableRows = (case filteredForms fz (onSearch p) searchTerm (completedForms p) of
                         None \<Rightarrow> [] | Some fs \<Rightarrow> fs)
      in if completedForms p = None \<and> \<not> error p \<and> (isLoading p \<or> isValidating p)
           then LoadingSkeleton
         else if isSearching p \<or> (searchTerm \<noteq> [] \<and> (isLoading p \<or> isValidating p))
           then SearchingSkeleton
         else if (completedForms p = None \<or> completedForms p = Some [])
                 \<and> \<not> isLoading p \<and> \<not> isValidating p
           then EmptyFragment
         else if searchTerm \<noteq> [] \<and> length tableRows = 0
                 \<and> \<not> isLoading p \<and> \<not> isValidating p \<and> \<not> isSearching p
           then NoSearchResults
         else FormsTableView (enableInfiniteScrolling p \<and> hasMore p))"

definition shows_table :: "formsList_view \<Rightarrow> bool" where
  "shows_table v = (case v of FormsTableView _ \<Rightarrow> True | _ \<Rightarrow> False)"

text \<open>
  An \<open>IntersectionObserver\<close> created at line 77, together with what its callback closes
  over (\<open>loadMore\<close> and \<open>isValidating\<close> of the render that created it) and the elements it
  observes. \<open>observe\<close> and \<open>unobserve\<close> throw a \<open>TypeError\<close> when handed \<open>null\<close>;
  an observer can be told to observe again after \<open>disconnect\<close>.
\<close>

type_synonym node = nat

record observer =
  cb_loadMore :: callback
  cb_isValidating :: bool
  targets :: "node list"

definition io_observe :: "node option \<Rightarrow> observer \<Rightarrow> error + observer" where
  "io_observe target ob =
     (case target of
        None \<Rightarrow> Inl TypeError
      | Some n \<Rightarrow> Inr (ob\<lparr>targets := (if n \<in> set (targets ob) then targets ob
                                       else targets ob @ [n])\<rparr>))"

definition io_unobserve :: "node option \<Rightarrow> observer \<Rightarrow> error + observer" where
  "io_unobserve target ob =
     (case target of
        None \<Rightarrow> Inl TypeError
      | Some n \<Rightarrow> Inr (ob\<lparr>targets := removeAll n (targets ob)\<rparr>))"

definition io_disconnect :: "observer \<Rightarrow> observer" where
  "io_disconnect ob = ob\<lparr>targets := []\<rparr>"

text \<open>
  The state of one \<open>FormsList\<close> instance and of the browser objects it created.
  \<^item> \<open>observerRef\<close> is \<open>observerRef.current\<close>, given as the observer it points to;
    \<open>unreferenced\<close> are the observers created earlier, which the component can no longer
    reach but which stay alive in the browser.
  \<^item> \<open>loadMoreRef\<close> is \<open>loadMoreRef.current\<close>. React hands the sentinel element to the
    callback ref when it enters the document and \<open>null\<close> when it leaves, so this is also
    the sentinel currently in the document.
  \<^item> \<open>table_under_heading\<close> tells where the table holding that sentinel stands in the
    rendered tree: alone under the wrapper (\<open>sectionName\<close> is \<open>'forms'\<close>, line 242) or
    after the section heading (lines 244-251).
  \<^item> \<open>effect_deps\<close> are the dependencies the observer effect last ran with, and
    \<open>effect_cleanup\<close> tells whether that run returned its cleanup function.
  \<^item> \<open>handleSearch_timer\<close> is the pending call of the memoized debounced function;
    \<open>superseded\<close> are pending calls of debounced functions of earlier renders (the memo
    is recomputed when \<open>onSearch\<close> changes), each with the \<open>onSearch\<close> it closed over.
  \<^item> \<open>loadMore_calls\<close>, \<open>setSearchTerm_calls\<close> and \<open>onSearch_calls\<close> are ghost records of
    the calls made; a \<open>loadMore\<close> call is recorded with the value the \<open>isValidating\<close> prop
    had when the call was made.
\<close>

datatype lifecycle = Fresh | Mounted | Unmounted

record fl_state =
  lifecycle :: lifecycle
  props :: formsListProps
  searchTerm :: string
  observerRef :: "observer option"
  unreferenced :: "observer list"
  loadMoreRef :: "node option"
  table_under_heading :: bool
  next_node :: node
  effect_deps :: "(bool \<times> callback option \<times> bool \<times> bool) option"
  effect_cleanup :: bool
  handleSearch_timer :: "string timer"
  superseded :: "(callback option \<times> nat \<times> string) list"
  loadMore_calls :: "(callback \<times> bool) list"
  setSearchTerm_calls :: "string list"
  onSearch_calls :: "(callback \<times> string) list"

definition fl_init :: "formsListProps \<Rightarrow> fl_state" where
  "fl_init p =
     \<lparr>lifecycle = Fresh, props = p, searchTerm = [], observerRef = None, unreferenced = [],
      loadMoreRef = None, table_under_heading = False, next_node = 0,
      effect_deps = None, effect_cleanup = False,
      handleSearch_timer = None, superseded = [], loadMore_calls = [],
      setSearchTerm_calls = [], onSearch_calls = []\<rparr>"

definition and_then :: "error + 'a \<Rightarrow> ('a \<Rightarrow> error + 'b) \<Rightarrow> error + 'b" where
  "and_then r f = (case r of Inl e \<Rightarrow> Inl e | Inr x \<Rightarrow> f x)"

text \<open>\<open>if (observerRef.current) observerRef.current.\<dots>\<close>\<close>

definition on_observerRef :: "(observer \<Rightarrow> error + observer) \<Rightarrow> fl_state \<Rightarrow> error + fl_state" where
  "on_observerRef f s =
     (case observerRef s of
        None \<Rightarrow> Inr s
      | Some ob \<Rightarrow> and_then (f ob) (\<lambda>ob'. Inr (s\<lparr>observerRef := Some ob'\<rparr>)))"

text \<open>The callback ref \<open>setLoadMoreRef\<close> (lines 103-116).\<close>

definition setLoadMoreRef :: "node option \<Rightarrow> fl_state \<Rightarrow> error + fl_state" where
  "setLoadMoreRef nd s =
     and_then
       (if loadMoreRef s \<noteq> None then on_observerRef (io_unobserve (loadMoreRef s)) s else Inr s)
       (\<lambda>s1. let s2 = s1\<lparr>loadMoreRef := nd\<rparr>
             in if nd \<noteq> None \<and> observerRef s2 \<noteq> None then on_observerRef (io_observe nd) s2
                else Inr s2)"

text \<open>
  The observer effect (lines 72-100). Its body returns early, without a cleanup
  function, unless infinite scrolling is enabled, \<open>loadMore\<close> is given and \<open>hasMore\<close>
  holds. Otherwise it creates an observer, stores it in \<open>observerRef\<close> (the observer
  stored before becomes unreachable), observes the sentinel if there is one, and returns
  the cleanup function, which disconnects whatever \<open>observerRef\<close> then points to.
\<close>

definition observer_effect :: "fl_state \<Rightarrow> error + fl_state" where
  "observer_effect s =
     (case loadMore (props s) of
        None \<Rightarrow> Inr (s\<lparr>effect_cleanup := False\<rparr>)
      | Some f \<Rightarrow>
          if \<not> enableInfiniteScrolling (props s) \<or> \<not> hasMore (props s)
          then Inr (s\<lparr>effect_cleanup := False\<rparr>)
          else
            let ob = \<lparr>cb_loadMore = f, cb_isValidating = isValidating (props s), targets = []\<rparr>;
                s1 = s\<lparr>unreferenced := (case observerRef s of None \<Rightarrow> unreferenced s
                                          | Some old \<Rightarrow> unreferenced s @ [old]),
                       observerRef := Some ob, effect_cleanup := True\<rparr>
            in if loadMoreRef s1 \<noteq> None then on_observerRef (io_observe (loadMoreRef s1)) s1
               else Inr s1)"

definition observer_cleanup :: "fl_state \<Rightarrow> fl_state" where
  "observer_cleanup s = s\<lparr>observerRef := map_option io_disconnect (observerRef s)\<rparr>"

text \<open>
  The observer's callback (lines 78-84), run with a single entry, and the delivery of a
  visibility change of the sentinel to every observer observing it. An element that is
  not in the document does not intersect, so only the sentinel in the document can
  report \<open>isIntersecting\<close>.
\<close>

definition observer_callback :: "bool \<Rightarrow> observer \<Rightarrow> fl_state \<Rightarrow> fl_state" where
  "observer_callback isIntersecting ob s =
     (if isIntersecting \<and> \<not> cb_isValidating ob
      then s\<lparr>loadMore_calls := loadMore_calls s @ [(cb_loadMore ob, isValidating (props s))]\<rparr>
      else s)"

definition observing :: "node \<Rightarrow> fl_state \<Rightarrow> observer list" where
  "observing n s =
     filter (\<lambda>ob. n \<in> set (targets ob))
       (unreferenced s @ (case observerRef s of None \<Rightarrow> [] | Some ob \<Rightarrow> [ob]))"

definition intersect :: "bool \<Rightarrow> fl_state \<Rightarrow> fl_state" where
  "intersect isIntersecting s =
     (case loadMoreRef s of
        None \<Rightarrow> s
      | Some n \<Rightarrow> foldl (\<lambda>st ob. observer_callback isIntersecting ob st) s (observing n s))"

text \<open>
  The commit of a render. React first calls the callback ref for a sentinel that has
  left (\<open>null\<close>) or entered (the new element) the document, and afterwards runs the
  effect if its dependencies changed: first the cleanup returned by the previous run, if
  there is one, then the body. The sentinel also leaves and enters anew, as a new
  element, when the tree under the wrapper changes its shape: lines 241-252 render the
  table as the wrapper's only child when \<open>sectionName\<close> is \<open>'forms'\<close> and as the second child,
  after the heading, otherwise, and between the two React removes the sentinel of the
  previous render (calling the ref with \<open>null\<close>) and creates a new one.
\<close>

definition commit_refs :: "matcher \<Rightarrow> fl_state \<Rightarrow> error + fl_state" where
  "commit_refs fz s =
     (let sentinel = (FormsList_view fz (props s) (searchTerm s) = FormsTableView True);
          heading = (sectionName (props s) \<noteq> ''forms'');
          mount = (\<lambda>st. setLoadMoreRef (Some (next_node st))
                          (st\<lparr>next_node := Suc (next_node st),
                              table_under_heading := heading\<rparr>))
      in if loadMoreRef s \<noteq> None \<and> \<not> sentinel then setLoadMoreRef None s
         else if loadMoreRef s = None \<and> sentinel then mount s
         else if loadMoreRef s \<noteq> None \<and> sentinel \<and> table_under_heading s \<noteq> heading
           then and_then (setLoadMoreRef None s) mount
         else Inr s)"

definition effect_dependencies ::
  "formsListProps \<Rightarrow> bool \<times> callback option \<times> bool \<times> bool" where
  "effect_dependencies p = (enableInfiniteScrolling p, loadMore p, hasMore p, isValidating p)"

definition commit_effects :: "fl_state \<Rightarrow> error + fl_state" where
  "commit_effects s =
     (let deps = effect_dependencies (props s)
      in if effect_deps s = Some deps then Inr s
         else observer_effect
                ((if effect_cleanup s then observer_cleanup s else s)\<lparr>effect_deps := Some deps\<rparr>))"

definition commit :: "matcher \<Rightarrow> fl_state \<Rightarrow> error + fl_state" where
  "commit fz s = and_then (commit_refs fz s) commit_effects"

text \<open>
  The body of the debounced \<open>handleSearch\<close> (lines 64-67), closed over \<open>onSearch\<close>. React
  ignores a state update of a component that has been unmounted.
\<close>

definition FormsList_handleSearch :: "callback option \<Rightarrow> string \<Rightarrow> fl_state \<Rightarrow> fl_state" where
  "FormsList_handleSearch closed_onSearch term s =
     s\<lparr>searchTerm := (if lifecycle s = Mounted then term else searchTerm s),
       setSearchTerm_calls := setSearchTerm_calls s @ [term],
       onSearch_calls := (case closed_onSearch of
                            None \<Rightarrow> onSearch_calls s
                          | Some g \<Rightarrow> onSearch_calls s @ [(g, term)])\<rparr>"

definition fire_due :: "nat \<Rightarrow> fl_state \<Rightarrow> fl_state" where
  "fire_due now s =
     (let s1 = foldl (\<lambda>st (g, due, a). if due \<le> now then FormsList_handleSearch g a st else st)
                 (s\<lparr>superseded := filter (\<lambda>(g, due, a). \<not> due \<le> now) (superseded s)\<rparr>)
                 (superseded s)
      in case timer_due now (handleSearch_timer s1) of
           None \<Rightarrow> s1
         | Some a \<Rightarrow> FormsList_handleSearch (onSearch (props s1)) a (s1\<lparr>handleSearch_timer := None\<rparr>))"

text \<open>
  Unmounting: React calls the callback ref with \<open>null\<close> for the sentinel and runs the
  cleanup of the effect. Nothing in the component cancels the debounced function.
\<close>

definition fl_unmount :: "fl_state \<Rightarrow> error + fl_state" where
  "fl_unmount s =
     (if lifecycle s \<noteq> Mounted then Inr s
      else and_then
             (if loadMoreRef s \<noteq> None then setLoadMoreRef None s else Inr s)
             (\<lambda>s1. Inr ((if effect_cleanup s1 then observer_cleanup s1 else s1)
                          \<lparr>lifecycle := Unmounted, effect_cleanup := False\<rparr>)))"

text \<open>
  The events of a list's life.
  \<^item> \<open>Render p\<close>: the parent renders the list with props \<open>p\<close> (the first one mounts it).
    When \<open>onSearch\<close> differs from the previous render the debounced function is created
    anew and a call pending in the old one stays pending there.
  \<^item> \<open>Intersect b\<close>: the sentinel's intersection with the viewport changes.
  \<^item> \<open>Submit now term\<close>: at time \<open>now\<close> the table calls the \<open>handleSearch\<close> prop it was given
    (line 206): \<open>onSearch\<close> itself if given, else the debounced function.
  \<^item> \<open>Elapse now\<close>: the clock reaches \<open>now\<close>. A debounced call that fell due updates
    \<open>searchTerm\<close>, upon which a mounted list renders again with the same props.
  \<^item> \<open>Unmount\<close>.
  A list that has been unmounted is not rendered again.
\<close>

datatype fl_event =
  Render formsListProps | Intersect bool | Submit nat string | Elapse nat | Unmount

definition rerender :: "matcher \<Rightarrow> fl_state \<Rightarrow> error + fl_state" where
  "rerender fz s = (if lifecycle s = Mounted then commit fz s else Inr s)"

fun fl_step :: "matcher \<Rightarrow> fl_state \<Rightarrow> fl_event \<Rightarrow> error + fl_state" where
  "fl_step fz s (Render p) =
     (case lifecycle s of
        Unmounted \<Rightarrow> Inr s
      | Fresh \<Rightarrow> commit fz (s\<lparr>lifecycle := Mounted, props := p\<rparr>)
      | Mounted \<Rightarrow>
          commit fz
            (if onSearch p = onSearch (props s) then s\<lparr>props := p\<rparr>
             else s\<lparr>props := p, handleSearch_timer := None,
                    superseded := (case handleSearch_timer s of
                                     None \<Rightarrow> superseded s
                                   | Some (due, a) \<Rightarrow>
                                       superseded s @ [(onSearch (props s), due, a)])\<rparr>))"
| "fl_step fz s (Intersect b) = Inr (intersect b s)"
| "fl_step fz s (Submit now term) =
     and_then (rerender fz (fire_due now s))
       (\<lambda>s1. if lifecycle s1 = Mounted
                 \<and> shows_table (FormsList_view fz (props s1) (searchTerm s1))
              then (case onSearch (props s1) of
                      Some g \<Rightarrow> Inr (s1\<lparr>onSearch_calls := onSearch_calls s1 @ [(g, term)]\<rparr>)
                    | None \<Rightarrow> Inr (s1\<lparr>handleSearch_timer :=
                                        debounced_call now term (handleSearch_timer s1)\<rparr>))
              else Inr s1)"
| "fl_step fz s (Elapse now) = rerender fz (fire_due now s)"
| "fl_step fz s Unmount = fl_unmount s"

fun fl_run :: "matcher \<Rightarrow> fl_state \<Rightarrow> fl_event list \<Rightarrow> error + fl_state" where
  "fl_run fz s [] = Inr s"
| "fl_run fz s (ev # evs) = and_then (fl_step fz s ev) (\<lambda>s1. fl_run fz s1 evs)"

text \<open>
  A sample list for concrete runs: one completed form, infinite scrolling enabled, more
  pages available, no load in flight, Local mode; and a scoring function that matches
  nothing.
\<close>

definition sample_form :: completedFormInfo where
  "sample_form =
     \<lparr>form = \<lparr>uuid = ''u1'', name = ''Vitals'', display = None\<rparr>,
      lastCompletedDate = None, associatedEncounters = []\<rparr>"

definition sample_props :: formsListProps where
  "sample_props =
     \<lparr>completedForms = Some [sample_form], error = False, sectionName = ''forms'',
      onSearch = None, isValidating = False, loadMore = Some 1, hasMore = True,
      isLoading = False, enableInfiniteScrolling = True, isSearching = False\<rparr>"

definition no_match :: matcher where
  "no_match pattern str = None"

text \<open>
  A sample scoring function for concrete runs of the filter: an exact match scores
  \<open>Infinity\<close>, a string containing every character of the pattern scores the pattern's
  length, anything else does not match. \<open>named\<close> builds a form of a given uuid, name and
  display name.
\<close>

definition sample_matcher :: matcher where
  "sample_matcher pattern str =
     (if str = pattern then Some \<infinity>
      else if set pattern \<subseteq> set str then Some (enat (length pattern))
      else None)"

definition named :: "string \<Rightarrow> string \<Rightarrow> string option \<Rightarrow> completedFormInfo" where
  "named u n d =
     \<lparr>form = \<lparr>uuid = u, name = n, display = d\<rparr>,
      lastCompletedDate = None, associatedEncounters = []\<rparr>"

text \<open>The state a run ends in, if it does not throw.\<close>

definition outcome :: "error + 'a \<Rightarrow> 'a option" where
  "outcome r = (case r of Inl e \<Rightarrow> None | Inr x \<Rightarrow> Some x)"

section \<open>Notions used in the verification\<close>

text \<open>
  \<open>untouched s s'\<close>: \<open>s'\<close> differs from \<open>s\<close> at most in the search term, the timers and the
  ghost records of the search, which is all the debounced body writes.
\<close>

definition untouched :: "fl_state \<Rightarrow> fl_state \<Rightarrow> bool" where
  "untouched s s' \<longleftrightarrow>
     lifecycle s' = lifecycle s \<and> loadMoreRef s' = loadMoreRef s
     \<and> loadMore_calls s' = loadMore_calls s \<and> observerRef s' = observerRef s
     \<and> unreferenced s' = unreferenced s \<and> props s' = props s
     \<and> next_node s' = next_node s \<and> table_under_heading s' = table_under_heading s
     \<and> effect_deps s' = effect_deps s \<and> effect_cleanup s' = effect_cleanup s"


text \<open>
  \<open>trigger_enabled\<close> is the condition under which the observer effect creates an observer
  (line 73). \<open>calls_respect_flag\<close> is the backpressure property: no recorded \<open>loadMore\<close>
  call was made while \<open>isValidating\<close> was true. \<open>current_observer\<close> is the situation the
  effect is written for: the observer in \<open>observerRef\<close> closes over the current
  \<open>isValidating\<close>, every earlier observer has been disconnected, and the cleanup of the
  last run is registered.
\<close>

definition trigger_enabled :: "formsListProps \<Rightarrow> bool" where
  "trigger_enabled p \<longleftrightarrow> enableInfiniteScrolling p \<and> loadMore p \<noteq> None \<and> hasMore p"

definition calls_respect_flag :: "fl_state \<Rightarrow> bool" where
  "calls_respect_flag s \<longleftrightarrow> list_all (\<lambda>c. \<not> snd c) (loadMore_calls s)"

definition current_observer :: "fl_state \<Rightarrow> bool" where
  "current_observer s \<longleftrightarrow>
     (case lifecycle s of
        Fresh \<Rightarrow> observerRef s = None \<and> unreferenced s = [] \<and> loadMoreRef s = None
                 \<and> effect_deps s = None \<and> \<not> effect_cleanup s
      | Mounted \<Rightarrow> list_all (\<lambda>ob. targets ob = []) (unreferenced s)
                 \<and> (\<exists>ob. observerRef s = Some ob
                          \<and> cb_isValidating ob = isValidating (props s))
                 \<and> effect_cleanup s \<and> effect_deps s = Some (effect_dependencies (props s))
                 \<and> trigger_enabled (props s)
      | Unmounted \<Rightarrow> loadMoreRef s = None)"

text \<open>
  The observer in \<open>observerRef\<close> observes nothing but the sentinel in the document, and
  after each commit the sentinel is in the document exactly when the list renders it.
\<close>

definition observes_only_sentinel :: "fl_state \<Rightarrow> bool" where
  "observes_only_sentinel s \<longleftrightarrow>
     (\<forall>ob. observerRef s = Some ob \<longrightarrow> (\<forall>n\<in>set (targets ob). loadMoreRef s = Some n))"

definition sentinel_tracked :: "matcher \<Rightarrow> fl_state \<Rightarrow> bool" where
  "sentinel_tracked fz s \<longleftrightarrow>
     observes_only_sentinel s
     \<and> (lifecycle s = Mounted \<longrightarrow>
           (loadMoreRef s \<noteq> None)
           = (FormsList_view fz (props s) (searchTerm s) = FormsTableView True))
     \<and> (lifecycle s \<noteq> Mounted \<longrightarrow> loadMoreRef s = None)"

text \<open>
  What a commit leaves alone. \<open>search_frame\<close>: the lifecycle, the props, the search term,
  the pending debounced calls and the records of calls. \<open>refs_frame\<close>, for the callback
  ref: moreover the unreferenced observers, the effect's bookkeeping, and what the observer
  in \<open>observerRef\<close> closed over.
\<close>

definition search_frame :: "fl_state \<Rightarrow> fl_state \<Rightarrow> bool" where
  "search_frame s s' \<longleftrightarrow>
     lifecycle s' = lifecycle s \<and> props s' = props s \<and> searchTerm s' = searchTerm s
     \<and> handleSearch_timer s' = handleSearch_timer s \<and> superseded s' = superseded s
     \<and> loadMore_calls s' = loadMore_calls s \<and> setSearchTerm_calls s' = setSearchTerm_calls s
     \<and> onSearch_calls s' = onSearch_calls s"

definition refs_frame :: "fl_state \<Rightarrow> fl_state \<Rightarrow> bool" where
  "refs_frame s s' \<longleftrightarrow>
     search_frame s s' \<and> unreferenced s' = unreferenced s
     \<and> effect_deps s' = effect_deps s \<and> effect_cleanup s' = effect_cleanup s
     \<and> map_option cb_isValidating (observerRef s') = map_option cb_isValidating (observerRef s)
     \<and> map_option cb_loadMore (observerRef s') = map_option cb_loadMore (observerRef s)"







section \<open>Verification: the Local-mode filter\<close>

subsection \<open>Stable sorting\<close>

lemma set_insort_by: "set (insort_by le x ys) = insert x (set ys)"
  by (induction ys) auto

lemma mset_insort_by: "mset (insort_by le x ys) = add_mset x (mset ys)"
  by (induction ys) auto

lemma mset_js_sort: "mset (js_sort le xs) = mset xs"
  by (induction xs) (simp_all add: js_sort_def mset_insort_by)

lemma set_js_sort: "set (js_sort le xs) = set xs"
  by (metis mset_js_sort set_mset_mset)

lemma js_sort_Cons: "js_sort le (x # xs) = insort_by le x (js_sort le xs)"
  by (simp add: js_sort_def)

lemma js_sort_Nil: "js_sort le [] = []"
  by (simp add: js_sort_def)

lemma sorted_insort_desc:
  fixes k :: "'a \<Rightarrow> 'b::linorder"
  shows "sorted_wrt (\<lambda>a b. k b \<le> k a) ys \<Longrightarrow> sorted_wrt (\<lambda>a b. k b \<le> k a) (insort_by (\<lambda>a b. k b \<le> k a) x ys)"
  by (induction ys) (auto simp: set_insort_by)

lemma sorted_js_sort_desc:
  fixes k :: "'a \<Rightarrow> 'b::linorder"
  shows "sorted_wrt (\<lambda>a b. k b \<le> k a) (js_sort (\<lambda>a b. k b \<le> k a) xs)"
  by (induction xs) (simp_all add: js_sort_Nil js_sort_Cons sorted_insort_desc)

lemma filter_insort_desc:
  fixes k :: "'a \<Rightarrow> 'b::linorder"
  shows "sorted_wrt (\<lambda>a b. k b \<le> k a) ys \<Longrightarrow> filter (\<lambda>y. k y = s) (insort_by (\<lambda>a b. k b \<le> k a) x ys) = filter (\<lambda>y. k y = s) (x # ys)"
  by (induction ys) (auto simp: filter_empty_conv)

lemma js_sort_desc_stable:
  fixes k :: "'a \<Rightarrow> 'b::linorder"
  shows "filter (\<lambda>y. k y = s) (js_sort (\<lambda>a b. k b \<le> k a) xs) = filter (\<lambda>y. k y = s) xs"
  by (induction xs) (simp_all add: js_sort_Nil js_sort_Cons filter_insort_desc sorted_js_sort_desc)

lemma js_sort_desc_sorted_id:
  fixes k :: "'a \<Rightarrow> 'b::linorder"
  shows "sorted_wrt (\<lambda>a b. k b \<le> k a) xs \<Longrightarrow> js_sort (\<lambda>a b. k b \<le> k a) xs = xs"
proof (induction xs)
  case Nil
  then show ?case by (simp add: js_sort_Nil)
next
  case (Cons x xs)
  then show ?case by (cases xs) (auto simp: js_sort_Cons)
qed

lemma map_insort_by:
  assumes "\<And>y. y \<in> set ys \<Longrightarrow> le x y = le' (f x) (f y)"
  shows "map f (insort_by le x ys) = insort_by le' (f x) (map f ys)"
  using assms by (induction ys) auto

lemma map_js_sort:
  assumes "\<And>x y. x \<in> set xs \<Longrightarrow> y \<in> set xs \<Longrightarrow> le x y = le' (f x) (f y)"
  shows "map f (js_sort le xs) = js_sort le' (map f xs)"
  using assms
proof (induction xs)
  case Nil
  then show ?case by (simp add: js_sort_Nil)
next
  case (Cons x xs)
  have "map f (insort_by le x (js_sort le xs)) = insort_by le' (f x) (map f (js_sort le xs))"
    by (rule map_insort_by) (simp add: set_js_sort Cons.prems)
  with Cons show ?case by (simp add: js_sort_Cons)
qed

lemma insort_by_cong:
  assumes "\<And>y. y \<in> set ys \<Longrightarrow> le x y = le' x y"
  shows "insort_by le x ys = insort_by le' x ys"
  using assms by (induction ys) auto

lemma js_sort_index_ties:
  assumes "sorted_wrt (\<lambda>a b. index a < index b) rs"
  shows "js_sort by_score_then_index rs = js_sort by_score rs"
  using assms
proof (induction rs)
  case Nil
  then show ?case by (simp add: js_sort_Nil)
next
  case (Cons r rs)
  have "insort_by by_score_then_index r (js_sort by_score rs) = insort_by by_score r (js_sort by_score rs)"
  proof (rule insort_by_cong)
    fix y assume "y \<in> set (js_sort by_score rs)"
    then have "index r < index y" using Cons.prems by (simp add: set_js_sort)
    then show "by_score_then_index r y = by_score r y"
      by (auto simp: by_score_then_index_def by_score_def)
  qed
  with Cons show ?case by (simp add: js_sort_Cons)
qed

lemma collect_matches_index:
  "r \<in> set (collect_matches fz p ex idx xs) \<Longrightarrow> idx \<le> index r"
  by (induction xs arbitrary: idx) (fastforce split: option.splits)+

lemma collect_matches_sorted:
  "sorted_wrt (\<lambda>a b. index a < index b) (collect_matches fz p ex idx xs)"
proof (induction xs arbitrary: idx)
  case Nil
  then show ?case by simp
next
  case (Cons x xs)
  show ?case
    using Cons[of "Suc idx"]
    by (auto split: option.splits dest!: collect_matches_index)
qed

lemma collect_matches_original:
  "map original (collect_matches fz p ex idx xs) = filter (\<lambda>x. fz p (ex x) \<noteq> None) xs"
  by (induction xs arbitrary: idx) (auto split: option.splits)

lemma collect_matches_score:
  "r \<in> set (collect_matches fz p ex idx xs) \<Longrightarrow> fz p (ex (original r)) = Some (score r)"
  by (induction xs arbitrary: idx) (auto split: option.splits)

lemma filteredForms_local:
  "filteredForms fz None (c # cs) (Some fs) =
     Some (js_sort (\<lambda>a b. match_score fz (c # cs) b \<le> match_score fz (c # cs) a)
            (filter (matches fz (c # cs)) fs))"
proof (cases "fs = []")
  case True
  then show ?thesis by (simp add: filteredForms_def js_sort_Nil)
next
  case False
  let ?t = "c # cs"
  let ?C = "collect_matches fz ?t extract_name 0 fs"
  have 1: "fuzzy_filter fz ?t fs extract_name = js_sort by_score ?C"
    using False by (simp add: fuzzy_filter_def js_sort_index_ties collect_matches_sorted)
  have 2: "js_sort by_score (js_sort by_score ?C) = js_sort by_score ?C"
    unfolding by_score_def[abs_def] by (rule js_sort_desc_sorted_id) (rule sorted_js_sort_desc)
  have 3: "map original (js_sort by_score ?C)
      = js_sort (\<lambda>a b. match_score fz ?t b \<le> match_score fz ?t a) (map original ?C)"
    by (rule map_js_sort) (auto simp: by_score_def match_score_def dest!: collect_matches_score)
  show ?thesis using False
    by (simp add: filteredForms_def 1 2 3 collect_matches_original matches_def[abs_def])
qed

lemma filteredForms_empty_results:
  "filteredForms fz None (c # cs) None = Some []"
  "filteredForms fz None (c # cs) (Some []) = Some []"
  by (simp_all add: filteredForms_def)

lemma filter_matches_js_sort:
  "filter (matches fz t) (js_sort le (filter (matches fz t) fs)) = js_sort le (filter (matches fz t) fs)"
  by (simp add: set_js_sort)

subsection \<open>Claims about \<open>filteredForms\<close>\<close>

lemma extract_name_display_or_name: "extract_name item = display_or_name item"
  by (cases "display (form item)") (simp_all add: extract_name_def display_or_name_def)

text \<open>
  C5. In Local mode (no \<open>onSearch\<close> callback) with a non-empty search term \<open>c # cs\<close> and a
  result set \<open>fs\<close>, \<open>filteredForms\<close> returns a list \<open>out\<close> such that
  \<^item> \<open>out\<close> holds exactly the items of \<open>fs\<close> whose key (the display name, or the name when
    there is no display name) the scoring function accepts, each as often as in \<open>fs\<close>;
  \<^item> \<open>out\<close> is ordered by the score of the key, descending;
  \<^item> for every score the items of that score stand in \<open>out\<close> in the order they have in
    \<open>fs\<close> (ties are stable).
  The key is \<open>display_or_name\<close>, stated from the spec and not the code's own \<open>extract\<close>.
  The result is a function of the term and the result set only: no callback or fetch is
  involved.
\<close>

theorem filteredForms_local_ranking:
  "\<exists>out. filteredForms fz None (c # cs) (Some fs) = Some out
     \<and> mset out = mset (filter (\<lambda>item. fz (c # cs) (display_or_name item) \<noteq> None) fs)
     \<and> sorted_wrt (\<lambda>a b. \<exists>sa sb. fz (c # cs) (display_or_name a) = Some sa
                              \<and> fz (c # cs) (display_or_name b) = Some sb \<and> sb \<le> sa) out
     \<and> (\<forall>s. filter (\<lambda>item. fz (c # cs) (display_or_name item) = Some s) out
            = filter (\<lambda>item. fz (c # cs) (display_or_name item) = Some s) fs)"
proof -
  let ?t = "c # cs"
  let ?le = "\<lambda>a b. match_score fz ?t b \<le> match_score fz ?t a"
  let ?out = "js_sort ?le (filter (matches fz ?t) fs)"
  have key: "fz ?t (display_or_name item) = fz ?t (extract_name item)" for item
    by (simp add: extract_name_display_or_name)
  have eq: "filteredForms fz None ?t (Some fs) = Some ?out"
    by (rule filteredForms_local)
  have perm: "mset ?out = mset (filter (\<lambda>item. fz ?t (display_or_name item) \<noteq> None) fs)"
    by (simp add: mset_js_sort key matches_def[abs_def])
  have srt: "sorted_wrt ?le ?out"
    by (rule sorted_js_sort_desc)
  have all: "\<forall>item\<in>set ?out. matches fz ?t item"
    by (simp add: set_js_sort)
  have sorted:
    "sorted_wrt (\<lambda>a b. \<exists>sa sb. fz ?t (display_or_name a) = Some sa
                      \<and> fz ?t (display_or_name b) = Some sb \<and> sb \<le> sa) ?out"
  proof (rule sorted_wrt_mono_rel[OF _ srt])
    fix a b
    assume "a \<in> set ?out" "b \<in> set ?out" "match_score fz ?t b \<le> match_score fz ?t a"
    moreover from this all have "matches fz ?t a" "matches fz ?t b" by blast+
    ultimately show "\<exists>sa sb. fz ?t (display_or_name a) = Some sa
                      \<and> fz ?t (display_or_name b) = Some sb \<and> sb \<le> sa"
      by (auto simp: key matches_def match_score_def split: option.splits)
  qed
  have stable: "filter (\<lambda>item. fz ?t (display_or_name item) = Some s) ?out
                = filter (\<lambda>item. fz ?t (display_or_name item) = Some s) fs" for s
  proof -
    have sel: "(\<lambda>item. fz ?t (display_or_name item) = Some s)
               = (\<lambda>item. matches fz ?t item \<and> match_score fz ?t item = s)"
      by (auto simp: key matches_def match_score_def split: option.splits)
    have "filter (\<lambda>item. fz ?t (display_or_name item) = Some s) ?out
          = filter (matches fz ?t) (filter (\<lambda>item. match_score fz ?t item = s) ?out)"
      by (simp add: sel conj_commute)
    also have "\<dots> = filter (matches fz ?t) (filter (\<lambda>item. match_score fz ?t item = s)
                        (filter (matches fz ?t) fs))"
      by (simp only: js_sort_desc_stable)
    also have "\<dots> = filter (\<lambda>item. fz ?t (display_or_name item) = Some s) fs"
      by (simp add: sel conj_commute)
    finally show ?thesis .
  qed
  from eq perm sorted stable show ?thesis by blast
qed

text \<open>
  An instance: of four forms the first does not match \<open>vit\<close>; the third matches exactly
  through its display name and comes first; the second and fourth tie and keep their
  order.
\<close>

lemma filteredForms_example:
  "filteredForms sample_matcher None ''vit''
     (Some [named ''1'' ''xyz'' None, named ''2'' ''vital signs'' None,
            named ''3'' ''hidden'' (Some ''vit''), named ''4'' ''vt i'' None])
   = Some [named ''3'' ''hidden'' (Some ''vit''), named ''2'' ''vital signs'' None,
           named ''4'' ''vt i'' None]"
  by code_simp

text \<open>
  C7. In Local mode an empty search term returns the result set as it is, present or
  absent; a non-empty term on an absent or an empty result set returns the empty list.
\<close>

theorem filteredForms_empty_term_and_empty_results:
  "filteredForms fz None [] cf = cf
   \<and> filteredForms fz None (c # cs) None = Some []
   \<and> filteredForms fz None (c # cs) (Some []) = Some []"
  by (simp add: filteredForms_def)

text \<open>
  C9. In Local mode, filtering the output of the filter again with the same term returns
  that output unchanged: the same items in the same order. (That two evaluations on the
  same term and result set agree is immediate, \<open>filteredForms\<close> being a function of them.)
\<close>

theorem filteredForms_idempotent:
  "filteredForms fz None t (filteredForms fz None t cf) = filteredForms fz None t cf"
proof (cases t)
  case Nil
  then show ?thesis by (simp add: filteredForms_def)
next
  case (Cons c cs)
  show ?thesis
  proof (cases cf)
    case None
    then show ?thesis by (simp add: Cons filteredForms_empty_results)
  next
    case (Some fs)
    let ?le = "\<lambda>a b. match_score fz t b \<le> match_score fz t a"
    have "js_sort ?le (filter (matches fz t) (js_sort ?le (filter (matches fz t) fs)))
          = js_sort ?le (js_sort ?le (filter (matches fz t) fs))"
      by (simp only: filter_matches_js_sort)
    also have "\<dots> = js_sort ?le (filter (matches fz t) fs)"
      by (rule js_sort_desc_sorted_id) (rule sorted_js_sort_desc)
    finally show ?thesis by (simp add: Some Cons filteredForms_local)
  qed
qed

section \<open>Verification: the dashboard\<close>

lemma in_section_iff:
  "in_section sec fi \<longleftrightarrow>
     uuid (form fi) \<in> set (section_forms sec) \<or> name (form fi) \<in> set (section_forms sec)"
  by (auto simp: in_section_def list_ex_iff)

text \<open>
  C6. For a result set \<open>fs\<close> and a section list \<open>secs\<close>, \<open>sections\<close> returns one bucket per
  configured section, in order and under the section's name; the bucket of a section
  holds exactly the items of \<open>fs\<close> (in their order) whose uuid or name is among the
  section's matchers; and an item that no section's matchers contain is in no bucket.
\<close>

theorem sections_buckets:
  "\<exists>out. sections (Some secs) (Some fs) = Some out \<and> length out = length secs
     \<and> (\<forall>i<length secs.
            section_name (out ! i) = section_name (secs ! i)
          \<and> availableForms (out ! i) =
              Some (filter (\<lambda>fi. uuid (form fi) \<in> set (section_forms (secs ! i))
                              \<or> name (form fi) \<in> set (section_forms (secs ! i))) fs))
     \<and> (\<forall>fi. (\<forall>sec\<in>set secs. uuid (form fi) \<notin> set (section_forms sec)
                               \<and> name (form fi) \<notin> set (section_forms sec))
            \<longrightarrow> (\<forall>b\<in>set out. \<forall>bucket. availableForms b = Some bucket \<longrightarrow> fi \<notin> set bucket))"
  by (auto simp: sections_def in_section_iff[abs_def])

theorem sections_buckets_witness:
  "\<exists>out. sections
       (Some [\<lparr>section_name = ''S1'', section_forms = [''a'']\<rparr>,
              \<lparr>section_name = ''S2'', section_forms = [''b'']\<rparr>])
       (Some [\<lparr>form = \<lparr>uuid = ''a'', name = ''Form A'', display = None\<rparr>,
                lastCompletedDate = None, associatedEncounters = []\<rparr>,
              \<lparr>form = \<lparr>uuid = ''u2'', name = ''b'', display = None\<rparr>,
                lastCompletedDate = None, associatedEncounters = []\<rparr>,
              \<lparr>form = \<lparr>uuid = ''c'', name = ''Form C'', display = None\<rparr>,
                lastCompletedDate = None, associatedEncounters = []\<rparr>]) = Some out
     \<and> length out = 2
     \<and> availableForms (out ! 0) =
          Some [\<lparr>form = \<lparr>uuid = ''a'', name = ''Form A'', display = None\<rparr>,
                 lastCompletedDate = None, associatedEncounters = []\<rparr>]
     \<and> availableForms (out ! 1) =
          Some [\<lparr>form = \<lparr>uuid = ''u2'', name = ''b'', display = None\<rparr>,
                 lastCompletedDate = None, associatedEncounters = []\<rparr>]
     \<and> (\<forall>b\<in>set out. \<forall>bucket. availableForms b = Some bucket \<longrightarrow>
           \<lparr>form = \<lparr>uuid = ''c'', name = ''Form C'', display = None\<rparr>,
            lastCompletedDate = None, associatedEncounters = []\<rparr> \<notin> set bucket)"
  using sections_buckets
    [of "[\<lparr>section_name = ''S1'', section_forms = [''a'']\<rparr>,
          \<lparr>section_name = ''S2'', section_forms = [''b'']\<rparr>]"
        "[\<lparr>form = \<lparr>uuid = ''a'', name = ''Form A'', display = None\<rparr>,
            lastCompletedDate = None, associatedEncounters = []\<rparr>,
          \<lparr>form = \<lparr>uuid = ''u2'', name = ''b'', display = None\<rparr>,
            lastCompletedDate = None, associatedEncounters = []\<rparr>,
          \<lparr>form = \<lparr>uuid = ''c'', name = ''Form C'', display = None\<rparr>,
            lastCompletedDate = None, associatedEncounters = []\<rparr>]"]
  by (auto simp: less_Suc_eq all_conj_distrib)

text \<open>
  C8. With an empty section list the dashboard renders exactly one \<open>FormsList\<close>, over the
  full result set and without a section name, whenever it renders lists at all, that is
  when it is not searching and not showing the empty state.
\<close>

theorem empty_sections_single_list:
  assumes "\<not> searching"
    and "\<not> (forms r = Some [] \<and> \<not> fetch_isLoading r \<and> \<not> fetch_isValidating r)"
  shows "\<exists>p. FormsDashboard (Some []) r scrolling searching handleSearch = Inr (Lists [p])
           \<and> completedForms p = forms r \<and> sectionName p = ''forms''"
  using assms by (auto simp: FormsDashboard_def Let_def sections_def list_props_def)

theorem empty_sections_single_list_witness:
  "\<exists>p. FormsDashboard (Some [])
          \<lparr>forms = Some [\<lparr>form = \<lparr>uuid = ''u1'', name = ''Vitals'', display = None\<rparr>,
                           lastCompletedDate = None, associatedEncounters = []\<rparr>],
           fetch_error = False, fetch_isValidating = False, fetch_loadMore = None,
           fetch_hasMore = False, fetch_isLoading = False\<rparr> False False 0 = Inr (Lists [p])
        \<and> completedForms p = Some [\<lparr>form = \<lparr>uuid = ''u1'', name = ''Vitals'', display = None\<rparr>,
                           lastCompletedDate = None, associatedEncounters = []\<rparr>]
        \<and> sectionName p = ''forms''"
  using empty_sections_single_list
    [of False "\<lparr>forms = Some [\<lparr>form = \<lparr>uuid = ''u1'', name = ''Vitals'', display = None\<rparr>,
                           lastCompletedDate = None, associatedEncounters = []\<rparr>],
           fetch_error = False, fetch_isValidating = False, fetch_loadMore = None,
           fetch_hasMore = False, fetch_isLoading = False\<rparr>" False 0]
  by simp

text \<open>
  With an empty section list, an empty result set and no fetch under way the dashboard
  renders the empty-state tile: no list at all.
\<close>

theorem empty_sections_empty_state_counterexample:
  "FormsDashboard (Some [])
     \<lparr>forms = Some [], fetch_error = False, fetch_isValidating = False, fetch_loadMore = None,
      fetch_hasMore = False, fetch_isLoading = False\<rparr> False False 0 = Inr EmptyState"
  by (simp add: FormsDashboard_def Let_def)

text \<open>
  C10. When the configuration has no \<open>formSections\<close>, \<open>sections\<close> is \<open>undefined\<close>, and whenever
  the dashboard gets as far as rendering lists (it is not searching and not showing the
  empty state) reading \<open>sections.length\<close> throws a \<open>TypeError\<close>; there is no fallback to the
  single unsectioned list.
\<close>

theorem absent_sections_type_error:
  assumes "\<not> searching"
    and "\<not> (forms r = Some [] \<and> \<not> fetch_isLoading r \<and> \<not> fetch_isValidating r)"
  shows "sections None (forms r) = None
       \<and> FormsDashboard None r scrolling searching handleSearch = Inl TypeError"
  using assms by (auto simp: FormsDashboard_def Let_def sections_def)

theorem absent_sections_type_error_witness:
  "sections None (Some [\<lparr>form = \<lparr>uuid = ''u1'', name = ''Vitals'', display = None\<rparr>,
                           lastCompletedDate = None, associatedEncounters = []\<rparr>]) = None
   \<and> FormsDashboard None
          \<lparr>forms = Some [\<lparr>form = \<lparr>uuid = ''u1'', name = ''Vitals'', display = None\<rparr>,
                           lastCompletedDate = None, associatedEncounters = []\<rparr>],
           fetch_error = False, fetch_isValidating = False, fetch_loadMore = None,
           fetch_hasMore = False, fetch_isLoading = False\<rparr> False False 0 = Inl TypeError"
  using absent_sections_type_error
    [of False "\<lparr>forms = Some [\<lparr>form = \<lparr>uuid = ''u1'', name = ''Vitals'', display = None\<rparr>,
                           lastCompletedDate = None, associatedEncounters = []\<rparr>],
           fetch_error = False, fetch_isValidating = False, fetch_loadMore = None,
           fetch_hasMore = False, fetch_isLoading = False\<rparr>" False 0]
  by simp

text \<open>
  Without \<open>formSections\<close>, an empty result set and no fetch under way give the empty-state
  tile, not an error: the early return of line 148 precedes the read of \<open>sections.length\<close>.
  This is the situation of the dashboard's own tests.
\<close>

theorem absent_sections_empty_state_counterexample:
  "FormsDashboard None
     \<lparr>forms = Some [], fetch_error = False, fetch_isValidating = False, fetch_loadMore = None,
      fetch_hasMore = False, fetch_isLoading = False\<rparr> False False 0 = Inr EmptyState"
  by (simp add: FormsDashboard_def Let_def)

section \<open>Verification: the debounced search\<close>








section \<open>Verification: the mounted list\<close>

subsection \<open>Teardown\<close>

lemma and_then_Inr [simp]: "and_then (Inr x) f = f x"
  by (simp add: and_then_def)

lemma and_then_Inl [simp]: "and_then (Inl e) f = Inl e"
  by (simp add: and_then_def)

lemma untouched_refl: "untouched s s"
  by (simp add: untouched_def)

lemma untouched_trans: "untouched s s' \<Longrightarrow> untouched s' s'' \<Longrightarrow> untouched s s''"
  by (simp add: untouched_def)

lemma untouched_handleSearch: "untouched s (FormsList_handleSearch g a s)"
  by (simp add: untouched_def FormsList_handleSearch_def)

lemma untouched_fold:
  "untouched s (foldl (\<lambda>st (g, due, a). if due \<le> now then FormsList_handleSearch g a st else st) s xs)"
proof (induction xs arbitrary: s)
  case Nil
  then show ?case by (simp add: untouched_refl)
next
  case (Cons x xs)
  obtain g due a where x: "x = (g, due, a)" by (cases x)
  show ?case
    using Cons[of "if due \<le> now then FormsList_handleSearch g a s else s"]
      untouched_handleSearch[of s g a]
    by (auto simp: x intro: untouched_trans)
qed

lemma untouched_fire_due: "untouched s (fire_due now s)"
proof -
  let ?s0 = "s\<lparr>superseded := filter (\<lambda>(g, due, a). \<not> due \<le> now) (superseded s)\<rparr>"
  let ?s1 = "foldl (\<lambda>st (g, due, a). if due \<le> now then FormsList_handleSearch g a st else st)
               ?s0 (superseded s)"
  have 0: "untouched s ?s0" by (simp add: untouched_def)
  have 1: "untouched ?s0 ?s1" by (rule untouched_fold)
  have 2: "untouched ?s1 (case timer_due now (handleSearch_timer ?s1) of
           None \<Rightarrow> ?s1
         | Some a \<Rightarrow> FormsList_handleSearch (onSearch (props ?s1)) a (?s1\<lparr>handleSearch_timer := None\<rparr>))"
    by (simp add: untouched_def FormsList_handleSearch_def split: option.splits)
  from 0 1 2 show ?thesis
    unfolding fire_due_def Let_def by (blast intro: untouched_trans)
qed

lemma setLoadMoreRef_None:
  "\<exists>s'. setLoadMoreRef None s = Inr s' \<and> loadMoreRef s' = None
        \<and> lifecycle s' = lifecycle s \<and> loadMore_calls s' = loadMore_calls s
        \<and> effect_cleanup s' = effect_cleanup s
        \<and> handleSearch_timer s' = handleSearch_timer s \<and> superseded s' = superseded s"
  by (cases "loadMoreRef s"; cases "observerRef s")
     (simp_all add: setLoadMoreRef_def on_observerRef_def io_unobserve_def)

lemma fl_unmount_Mounted:
  assumes "lifecycle s = Mounted"
  shows "\<exists>s'. fl_unmount s = Inr s' \<and> lifecycle s' = Unmounted \<and> loadMoreRef s' = None
        \<and> loadMore_calls s' = loadMore_calls s
        \<and> handleSearch_timer s' = handleSearch_timer s \<and> superseded s' = superseded s"
proof (cases "loadMoreRef s")
  case None
  then show ?thesis using assms by (simp add: fl_unmount_def observer_cleanup_def)
next
  case (Some n)
  obtain s1 where "setLoadMoreRef None s = Inr s1" "loadMoreRef s1 = None"
    "loadMore_calls s1 = loadMore_calls s" "handleSearch_timer s1 = handleSearch_timer s"
    "superseded s1 = superseded s"
    using setLoadMoreRef_None[of s] by blast
  then show ?thesis using assms Some by (simp add: fl_unmount_def observer_cleanup_def)
qed

subsection \<open>What a commit leaves alone\<close>



lemma refs_frame_refl: "refs_frame s s"
  by (simp add: refs_frame_def search_frame_def)

lemma refs_frame_trans: "refs_frame s s' \<Longrightarrow> refs_frame s' s'' \<Longrightarrow> refs_frame s s''"
  by (simp add: refs_frame_def search_frame_def)

lemma setLoadMoreRef_refs: "\<exists>s'. setLoadMoreRef nd s = Inr s' \<and> refs_frame s s' \<and> loadMoreRef s' = nd"
  by (cases "loadMoreRef s"; cases "observerRef s"; cases nd)
     (auto simp: setLoadMoreRef_def on_observerRef_def io_unobserve_def io_observe_def Let_def
        refs_frame_def search_frame_def)

lemma commit_refs_refs: "\<exists>s1. commit_refs fz s = Inr s1 \<and> refs_frame s s1"
proof -
  define sentinel where "sentinel = (FormsList_view fz (props s) (searchTerm s) = FormsTableView True)"
  define heading where "heading = (sectionName (props s) \<noteq> ''forms'')"
  define mount where "mount = (\<lambda>st. setLoadMoreRef (Some (next_node st))
                          (st\<lparr>next_node := Suc (next_node st),
                              table_under_heading := heading\<rparr>))"
  have mount: "\<exists>s1. mount st = Inr s1 \<and> refs_frame st s1" for st
  proof -
    have "refs_frame st (st\<lparr>next_node := Suc (next_node st), table_under_heading := heading\<rparr>)"
      by (simp add: refs_frame_def search_frame_def)
    with setLoadMoreRef_refs[of "Some (next_node st)"
        "st\<lparr>next_node := Suc (next_node st), table_under_heading := heading\<rparr>"]
    show ?thesis unfolding mount_def by (blast intro: refs_frame_trans)
  qed
  have unfold: "commit_refs fz s =
      (if loadMoreRef s \<noteq> None \<and> \<not> sentinel then setLoadMoreRef None s
         else if loadMoreRef s = None \<and> sentinel then mount s
         else if loadMoreRef s \<noteq> None \<and> sentinel \<and> table_under_heading s \<noteq> heading
           then and_then (setLoadMoreRef None s) mount
         else Inr s)"
    by (simp add: commit_refs_def Let_def sentinel_def heading_def mount_def)
  obtain s0 where 0: "setLoadMoreRef None s = Inr s0" "refs_frame s s0"
    using setLoadMoreRef_refs[of None s] by blast
  obtain s1 where 1: "mount s0 = Inr s1" "refs_frame s0 s1" using mount by blast
  obtain s2 where 2: "mount s = Inr s2" "refs_frame s s2" using mount by blast
  show ?thesis
    unfolding unfold using 0 1 2 refs_frame_refl[of s]
    by (auto intro: refs_frame_trans)
qed




subsection \<open>Backpressure while the trigger stays enabled\<close>

lemma commit_current_observer:
  assumes "lifecycle s = Mounted" and "trigger_enabled (props s)"
    and "list_all (\<lambda>ob. targets ob = []) (unreferenced s)"
    and "(effect_deps s = None \<and> observerRef s = None \<and> \<not> effect_cleanup s)
         \<or> (\<exists>ob p0. observerRef s = Some ob \<and> effect_cleanup s
               \<and> effect_deps s = Some (effect_dependencies p0)
               \<and> cb_isValidating ob = isValidating p0)"
  shows "\<exists>s'. commit fz s = Inr s' \<and> current_observer s' \<and> lifecycle s' = Mounted
           \<and> props s' = props s \<and> loadMore_calls s' = loadMore_calls s"
proof -
  obtain s1 where 1: "commit_refs fz s = Inr s1" "refs_frame s s1"
    using commit_refs_refs by blast
  have a: "lifecycle s1 = Mounted" "trigger_enabled (props s1)"
    "list_all (\<lambda>ob. targets ob = []) (unreferenced s1)" "props s1 = props s"
    "loadMore_calls s1 = loadMore_calls s"
    using 1(2) assms(1-3) by (simp_all add: refs_frame_def search_frame_def)
  have b: "(effect_deps s1 = None \<and> observerRef s1 = None \<and> \<not> effect_cleanup s1)
         \<or> (\<exists>ob p0. observerRef s1 = Some ob \<and> effect_cleanup s1
               \<and> effect_deps s1 = Some (effect_dependencies p0)
               \<and> cb_isValidating ob = isValidating p0)"
    using 1(2) assms(4) by (auto simp: refs_frame_def)
  have "\<exists>s'. commit_effects s1 = Inr s' \<and> current_observer s' \<and> lifecycle s' = Mounted
           \<and> props s' = props s1 \<and> loadMore_calls s' = loadMore_calls s1"
    using a(1-3) b
    by (auto simp: commit_effects_def observer_effect_def observer_cleanup_def io_disconnect_def
      on_observerRef_def io_observe_def and_then_def current_observer_def trigger_enabled_def
      effect_dependencies_def Let_def split: option.splits if_splits)
  with 1(1) a(4,5) show ?thesis by (auto simp: commit_def)
qed

lemma current_observer_untouched:
  "untouched s s' \<Longrightarrow> current_observer s \<Longrightarrow> current_observer s'"
  by (auto simp: untouched_def current_observer_def split: lifecycle.splits)

lemma rerender_current_observer:
  assumes "current_observer s"
  shows "\<exists>s'. rerender fz s = Inr s' \<and> current_observer s' \<and> lifecycle s' = lifecycle s
           \<and> props s' = props s \<and> loadMore_calls s' = loadMore_calls s"
proof (cases "lifecycle s = Mounted")
  case False
  then show ?thesis using assms by (simp add: rerender_def)
next
  case True
  have "\<exists>s'. commit fz s = Inr s' \<and> current_observer s' \<and> lifecycle s' = Mounted
           \<and> props s' = props s \<and> loadMore_calls s' = loadMore_calls s"
    using assms True
    by (intro commit_current_observer) (auto simp: current_observer_def split: option.splits)
  then show ?thesis using True by (simp add: rerender_def)
qed

lemma fire_then_rerender:
  assumes "current_observer s" and "calls_respect_flag s"
  shows "\<exists>s'. rerender fz (fire_due now s) = Inr s' \<and> current_observer s'
           \<and> calls_respect_flag s'"
proof -
  have u: "untouched s (fire_due now s)" by (rule untouched_fire_due)
  then have 1: "current_observer (fire_due now s)"
    using assms(1) by (rule current_observer_untouched)
  from u have 2: "loadMore_calls (fire_due now s) = loadMore_calls s"
    by (simp add: untouched_def)
  from rerender_current_observer[OF 1, of fz] 2 assms(2) show ?thesis
    by (auto simp: calls_respect_flag_def)
qed

lemma observing_current:
  assumes "list_all (\<lambda>ob. targets ob = []) (unreferenced s)"
  shows "observing n s = (case observerRef s of None \<Rightarrow> []
           | Some ob \<Rightarrow> if n \<in> set (targets ob) then [ob] else [])"
proof -
  have "filter (\<lambda>ob. n \<in> set (targets ob)) (unreferenced s) = []"
    using assms by (auto simp: filter_empty_conv list_all_iff)
  then show ?thesis by (simp add: observing_def split: option.splits)
qed

lemma intersect_current_observer:
  assumes "current_observer s" and "calls_respect_flag s"
  shows "current_observer (intersect b s) \<and> calls_respect_flag (intersect b s)"
proof (cases "lifecycle s")
  case Fresh
  then show ?thesis using assms by (simp add: current_observer_def intersect_def)
next
  case Unmounted
  then show ?thesis using assms by (simp add: current_observer_def intersect_def)
next
  case Mounted
  then have *: "list_all (\<lambda>ob. targets ob = []) (unreferenced s)"
    using assms(1) by (simp add: current_observer_def)
  show ?thesis
    using assms Mounted
    by (auto simp: intersect_def observing_current[OF *] current_observer_def
        calls_respect_flag_def observer_callback_def split: option.splits)
qed

lemma current_observer_step:
  assumes "current_observer s" and "calls_respect_flag s"
    and "\<And>p. ev = Render p \<Longrightarrow> trigger_enabled p"
  shows "\<exists>s'. fl_step fz s ev = Inr s' \<and> current_observer s' \<and> calls_respect_flag s'"
proof (cases ev)
  case (Render p)
  then have en: "trigger_enabled p" using assms(3) by simp
  show ?thesis
  proof (cases "lifecycle s")
    case Unmounted
    then show ?thesis using assms Render by simp
  next
    case Fresh
    let ?s0 = "s\<lparr>lifecycle := Mounted, props := p\<rparr>"
    have "\<exists>s'. commit fz ?s0 = Inr s' \<and> current_observer s' \<and> lifecycle s' = Mounted
           \<and> props s' = props ?s0 \<and> loadMore_calls s' = loadMore_calls ?s0"
      using assms(1) Fresh en by (intro commit_current_observer) (simp_all add: current_observer_def)
    then show ?thesis using assms(2) Fresh Render by (auto simp: calls_respect_flag_def)
  next
    case Mounted
    let ?s0 = "if onSearch p = onSearch (props s) then s\<lparr>props := p\<rparr>
             else s\<lparr>props := p, handleSearch_timer := None,
                    superseded := (case handleSearch_timer s of
                                     None \<Rightarrow> superseded s
                                   | Some (due, a) \<Rightarrow>
                                       superseded s @ [(onSearch (props s), due, a)])\<rparr>"
    have "\<exists>s'. commit fz ?s0 = Inr s' \<and> current_observer s' \<and> lifecycle s' = Mounted
           \<and> props s' = props ?s0 \<and> loadMore_calls s' = loadMore_calls ?s0"
      using assms(1) Mounted en
      by (intro commit_current_observer) (auto simp: current_observer_def split: option.splits)
    then show ?thesis using assms(2) Mounted Render by (auto simp: calls_respect_flag_def)
  qed
next
  case (Intersect b)
  then show ?thesis using intersect_current_observer[OF assms(1,2)] by simp
next
  case (Submit now q)
  obtain s1 where 1: "rerender fz (fire_due now s) = Inr s1" "current_observer s1"
    "calls_respect_flag s1"
    using fire_then_rerender[OF assms(1,2)] by blast
  have "current_observer (s1\<lparr>onSearch_calls := x\<rparr>)"
       "current_observer (s1\<lparr>handleSearch_timer := y\<rparr>)" for x y
    using 1(2) by (auto simp: current_observer_def split: lifecycle.splits)
  then show ?thesis using 1 Submit
    by (auto simp: calls_respect_flag_def split: option.splits)
next
  case (Elapse now)
  then show ?thesis using fire_then_rerender[OF assms(1,2)] by simp
next
  case Unmount
  show ?thesis
  proof (cases "lifecycle s = Mounted")
    case True
    then show ?thesis
      using fl_unmount_Mounted[OF True] assms(2) Unmount
      by (auto simp: current_observer_def calls_respect_flag_def)
  next
    case False
    then show ?thesis using assms Unmount by (simp add: fl_unmount_def)
  qed
qed


lemma current_observer_run:
  assumes "current_observer s" and "calls_respect_flag s"
    and "list_all (\<lambda>ev. case ev of Render p \<Rightarrow> trigger_enabled p | _ \<Rightarrow> True) evs"
  shows "\<exists>s'. fl_run fz s evs = Inr s' \<and> current_observer s' \<and> calls_respect_flag s'"
  using assms
proof (induction evs arbitrary: s)
  case Nil
  then show ?case by simp
next
  case (Cons ev evs)
  have "\<And>p. ev = Render p \<Longrightarrow> trigger_enabled p"
    using Cons.prems(3) by auto
  then obtain s1 where 1: "fl_step fz s ev = Inr s1" "current_observer s1" "calls_respect_flag s1"
    using current_observer_step[OF Cons.prems(1,2)] by blast
  from Cons.IH[OF 1(2,3)] Cons.prems(3) 1(1) show ?case by simp
qed

lemma backpressure_while_trigger_enabled:
  assumes "list_all (\<lambda>ev. case ev of Render p \<Rightarrow> trigger_enabled p | _ \<Rightarrow> True) evs"
  shows "\<exists>s. fl_run fz (fl_init p0) evs = Inr s \<and> list_all (\<lambda>c. \<not> snd c) (loadMore_calls s)"
proof -
  have "current_observer (fl_init p0)" "calls_respect_flag (fl_init p0)"
    by (simp_all add: current_observer_def calls_respect_flag_def fl_init_def)
  from current_observer_run[OF this assms, of fz] show ?thesis
    by (auto simp: calls_respect_flag_def)
qed

subsection \<open>The observer in \<open>observerRef\<close> follows the sentinel\<close>

lemma removeAll_only: "\<forall>x\<in>set xs. a = x \<Longrightarrow> removeAll a xs = []"
  by (induction xs) auto

lemma setLoadMoreRef_tracked:
  assumes "observes_only_sentinel s"
  shows "\<exists>s'. setLoadMoreRef nd s = Inr s' \<and> observes_only_sentinel s' \<and> loadMoreRef s' = nd
           \<and> lifecycle s' = lifecycle s \<and> props s' = props s \<and> searchTerm s' = searchTerm s"
  using assms
  by (cases "loadMoreRef s"; cases "observerRef s"; cases nd)
     (auto simp: setLoadMoreRef_def on_observerRef_def io_unobserve_def io_observe_def
        observes_only_sentinel_def Let_def removeAll_only)

lemma commit_refs_tracked:
  assumes "observes_only_sentinel s"
  shows "\<exists>s1. commit_refs fz s = Inr s1 \<and> observes_only_sentinel s1
           \<and> (loadMoreRef s1 \<noteq> None)
               = (FormsList_view fz (props s) (searchTerm s) = FormsTableView True)
           \<and> lifecycle s1 = lifecycle s \<and> props s1 = props s \<and> searchTerm s1 = searchTerm s"
proof -
  define sentinel where "sentinel = (FormsList_view fz (props s) (searchTerm s) = FormsTableView True)"
  define heading where "heading = (sectionName (props s) \<noteq> ''forms'')"
  define mount where "mount = (\<lambda>st. setLoadMoreRef (Some (next_node st))
                          (st\<lparr>next_node := Suc (next_node st),
                              table_under_heading := heading\<rparr>))"
  have mount: "\<exists>s1. mount st = Inr s1 \<and> observes_only_sentinel s1 \<and> loadMoreRef s1 \<noteq> None
           \<and> lifecycle s1 = lifecycle st \<and> props s1 = props st \<and> searchTerm s1 = searchTerm st"
    if "observes_only_sentinel st" for st
  proof -
    have "observes_only_sentinel (st\<lparr>next_node := Suc (next_node st),
                                      table_under_heading := heading\<rparr>)"
      using that by (simp add: observes_only_sentinel_def)
    from setLoadMoreRef_tracked[OF this, of "Some (next_node st)"] show ?thesis
      unfolding mount_def by auto
  qed
  have unfold: "commit_refs fz s =
      (if loadMoreRef s \<noteq> None \<and> \<not> sentinel then setLoadMoreRef None s
         else if loadMoreRef s = None \<and> sentinel then mount s
         else if loadMoreRef s \<noteq> None \<and> sentinel \<and> table_under_heading s \<noteq> heading
           then and_then (setLoadMoreRef None s) mount
         else Inr s)"
    by (simp add: commit_refs_def Let_def sentinel_def heading_def mount_def)
  consider (leave) "loadMoreRef s \<noteq> None" "\<not> sentinel"
    | (enter) "loadMoreRef s = None" "sentinel"
    | (move) "loadMoreRef s \<noteq> None" "sentinel" "table_under_heading s \<noteq> heading"
    | (stay) "loadMoreRef s \<noteq> None" "sentinel" "table_under_heading s = heading"
    | (none) "loadMoreRef s = None" "\<not> sentinel"
    by blast
  then show ?thesis
  proof cases
    case leave
    from setLoadMoreRef_tracked[OF assms, of None] leave show ?thesis
      unfolding unfold sentinel_def[symmetric] by auto
  next
    case enter
    from mount[OF assms] enter show ?thesis
      unfolding unfold sentinel_def[symmetric] by auto
  next
    case move
    obtain s0 where 0: "setLoadMoreRef None s = Inr s0" "observes_only_sentinel s0"
      "lifecycle s0 = lifecycle s" "props s0 = props s" "searchTerm s0 = searchTerm s"
      using setLoadMoreRef_tracked[OF assms, of None] by blast
    from mount[OF 0(2)] 0 move show ?thesis
      unfolding unfold sentinel_def[symmetric] by auto
  next
    case stay
    then show ?thesis using assms
      unfolding unfold sentinel_def[symmetric] by auto
  next
    case none
    then show ?thesis using assms
      unfolding unfold sentinel_def[symmetric] by auto
  qed
qed

lemma commit_effects_tracked:
  assumes "observes_only_sentinel s"
  shows "\<exists>s'. commit_effects s = Inr s' \<and> observes_only_sentinel s'
           \<and> loadMoreRef s' = loadMoreRef s
           \<and> lifecycle s' = lifecycle s \<and> props s' = props s \<and> searchTerm s' = searchTerm s"
  using assms
  by (auto simp: commit_effects_def observer_effect_def observer_cleanup_def io_disconnect_def
      on_observerRef_def io_observe_def observes_only_sentinel_def and_then_def
      Let_def split: option.splits if_splits)

lemma commit_sentinel_tracked:
  assumes "lifecycle s = Mounted" and "observes_only_sentinel s"
  shows "\<exists>s'. commit fz s = Inr s' \<and> sentinel_tracked fz s' \<and> lifecycle s' = Mounted
           \<and> props s' = props s \<and> searchTerm s' = searchTerm s"
proof -
  obtain s1 where 1: "commit_refs fz s = Inr s1" "observes_only_sentinel s1"
    "(loadMoreRef s1 \<noteq> None) = (FormsList_view fz (props s) (searchTerm s) = FormsTableView True)"
    "lifecycle s1 = lifecycle s" "props s1 = props s" "searchTerm s1 = searchTerm s"
    using commit_refs_tracked[OF assms(2)] by blast
  obtain s' where 2: "commit_effects s1 = Inr s'" "observes_only_sentinel s'"
    "loadMoreRef s' = loadMoreRef s1" "lifecycle s' = lifecycle s1" "props s' = props s1"
    "searchTerm s' = searchTerm s1"
    using commit_effects_tracked[OF 1(2)] by blast
  show ?thesis using 1 2 assms(1) by (simp add: commit_def sentinel_tracked_def)
qed


lemma observes_only_sentinel_untouched:
  "untouched s s' \<Longrightarrow> observes_only_sentinel s \<Longrightarrow> observes_only_sentinel s'"
  by (simp add: untouched_def observes_only_sentinel_def)

lemma fire_then_rerender_tracked:
  assumes "sentinel_tracked fz s"
  shows "\<exists>s'. rerender fz (fire_due now s) = Inr s' \<and> sentinel_tracked fz s'"
proof -
  let ?s1 = "fire_due now s"
  have u: "untouched s ?s1" by (rule untouched_fire_due)
  have o: "observes_only_sentinel ?s1"
    using u assms by (auto simp: sentinel_tracked_def intro: observes_only_sentinel_untouched)
  show ?thesis
  proof (cases "lifecycle ?s1 = Mounted")
    case True
    from commit_sentinel_tracked[OF True o, of fz] True show ?thesis
      by (auto simp: rerender_def)
  next
    case False
    moreover have "loadMoreRef ?s1 = None"
      using u assms False by (auto simp: untouched_def sentinel_tracked_def)
    ultimately show ?thesis using o by (simp add: rerender_def sentinel_tracked_def)
  qed
qed

lemma callbacks_frame:
  "\<exists>calls. foldl (\<lambda>st ob. observer_callback b ob st) s obs = s\<lparr>loadMore_calls := calls\<rparr>"
proof (induction obs arbitrary: s)
  case Nil
  have "s = s\<lparr>loadMore_calls := loadMore_calls s\<rparr>" by simp
  then show ?case by (metis foldl_Nil)
next
  case (Cons ob obs)
  obtain c1 where 1: "observer_callback b ob s = s\<lparr>loadMore_calls := c1\<rparr>"
    by (cases "b \<and> \<not> cb_isValidating ob") (auto simp: observer_callback_def intro: that[of "loadMore_calls s"])
  obtain c2 where "foldl (\<lambda>st ob. observer_callback b ob st) (s\<lparr>loadMore_calls := c1\<rparr>) obs
                   = s\<lparr>loadMore_calls := c1\<rparr>\<lparr>loadMore_calls := c2\<rparr>"
    using Cons[of "s\<lparr>loadMore_calls := c1\<rparr>"] by blast
  with 1 show ?case by auto
qed

lemma intersect_frame: "\<exists>calls. intersect b s = s\<lparr>loadMore_calls := calls\<rparr>"
proof (cases "loadMoreRef s")
  case None
  show ?thesis unfolding intersect_def None
    by (rule exI[of _ "loadMore_calls s"]) simp
next
  case (Some n)
  then show ?thesis using callbacks_frame[of b s "observing n s"] by (simp add: intersect_def)
qed

lemma sentinel_tracked_step:
  assumes "sentinel_tracked fz s"
  shows "\<exists>s'. fl_step fz s ev = Inr s' \<and> sentinel_tracked fz s'"
proof (cases ev)
  case (Render p)
  have o: "observes_only_sentinel s" using assms by (simp add: sentinel_tracked_def)
  show ?thesis
  proof (cases "lifecycle s")
    case Unmounted
    then show ?thesis using assms Render by simp
  next
    case Fresh
    have "observes_only_sentinel (s\<lparr>lifecycle := Mounted, props := p\<rparr>)"
      using o by (simp add: observes_only_sentinel_def)
    from commit_sentinel_tracked[OF _ this, of fz] show ?thesis using Fresh Render by auto
  next
    case Mounted
    let ?s0 = "if onSearch p = onSearch (props s) then s\<lparr>props := p\<rparr>
             else s\<lparr>props := p, handleSearch_timer := None,
                    superseded := (case handleSearch_timer s of
                                     None \<Rightarrow> superseded s
                                   | Some (due, a) \<Rightarrow>
                                       superseded s @ [(onSearch (props s), due, a)])\<rparr>"
    have "observes_only_sentinel ?s0" "lifecycle ?s0 = Mounted"
      using o Mounted by (simp_all add: observes_only_sentinel_def)
    from commit_sentinel_tracked[OF this(2,1), of fz] show ?thesis using Mounted Render by auto
  qed
next
  case (Intersect b)
  obtain calls where "intersect b s = s\<lparr>loadMore_calls := calls\<rparr>"
    using intersect_frame by blast
  then show ?thesis using assms Intersect
    by (auto simp: sentinel_tracked_def observes_only_sentinel_def split: if_splits)
next
  case (Submit now q)
  obtain s1 where 1: "rerender fz (fire_due now s) = Inr s1" "sentinel_tracked fz s1"
    using fire_then_rerender_tracked[OF assms] by blast
  have "sentinel_tracked fz (s1\<lparr>onSearch_calls := x\<rparr>)"
       "sentinel_tracked fz (s1\<lparr>handleSearch_timer := y\<rparr>)" for x y
    using 1(2) by (simp_all add: sentinel_tracked_def observes_only_sentinel_def)
  then show ?thesis using 1 Submit by (auto split: option.splits)
next
  case (Elapse now)
  then show ?thesis using fire_then_rerender_tracked[OF assms] by simp
next
  case Unmount
  have o: "observes_only_sentinel s" using assms by (simp add: sentinel_tracked_def)
  show ?thesis
  proof (cases "lifecycle s = Mounted")
    case False
    then show ?thesis using assms Unmount by (simp add: fl_unmount_def)
  next
    case True
    obtain s1 where 1: "(if loadMoreRef s \<noteq> None then setLoadMoreRef None s else Inr s) = Inr s1"
      "observes_only_sentinel s1" "loadMoreRef s1 = None"
      using setLoadMoreRef_tracked[OF o, of None] o by (cases "loadMoreRef s") auto
    then show ?thesis using True Unmount
      by (auto simp: fl_unmount_def sentinel_tracked_def observes_only_sentinel_def
          observer_cleanup_def io_disconnect_def)
  qed
qed

lemma sentinel_tracked_run:
  assumes "sentinel_tracked fz s"
  shows "\<exists>s'. fl_run fz s evs = Inr s' \<and> sentinel_tracked fz s'"
  using assms
proof (induction evs arbitrary: s)
  case Nil
  then show ?case by simp
next
  case (Cons ev evs)
  obtain s1 where 1: "fl_step fz s ev = Inr s1" "sentinel_tracked fz s1"
    using sentinel_tracked_step[OF Cons.prems] by blast
  from Cons.IH[OF 1(2)] 1(1) show ?case by simp
qed

lemma sentinel_tracked_init: "sentinel_tracked fz (fl_init p0)"
  by (simp add: sentinel_tracked_def observes_only_sentinel_def fl_init_def)

lemma sentinel_needs_hasMore:
  "FormsList_view fz p t = FormsTableView True \<Longrightarrow> enableInfiniteScrolling p \<and> hasMore p"
  by (auto simp: FormsList_view_def Let_def split: if_splits)

lemma inert_without_hasMore:
  assumes "fl_run fz (fl_init p0) evs = Inr s" and "lifecycle s = Mounted"
    and "\<not> hasMore (props s) \<or> \<not> enableInfiniteScrolling (props s)"
  shows "loadMoreRef s = None \<and> (\<forall>ob. observerRef s = Some ob \<longrightarrow> targets ob = [])
         \<and> intersect b s = s"
proof -
  have t: "sentinel_tracked fz s"
    using sentinel_tracked_run[OF sentinel_tracked_init, of fz p0 evs] assms(1) by simp
  have "FormsList_view fz (props s) (searchTerm s) \<noteq> FormsTableView True"
    using sentinel_needs_hasMore assms(3) by blast
  with t assms(2) have n: "loadMoreRef s = None" by (simp add: sentinel_tracked_def)
  with t have "\<forall>ob. observerRef s = Some ob \<longrightarrow> targets ob = []"
    by (auto simp: sentinel_tracked_def observes_only_sentinel_def)
  with n show ?thesis by (simp add: intersect_def)
qed

subsection \<open>The regular mode\<close>

lemma regular_mode_never_enabled:
  assumes "query = []" and "\<not> scrolling"
  shows "\<not> trigger_enabled
           (list_props (current_result query scrolling infiniteFormsResult regularFormsResult)
              scrolling searching handleSearch cf sname)"
  using assms by (simp add: trigger_enabled_def list_props_def current_result_def)

subsection \<open>Pending debounced calls\<close>



















subsection \<open>Typing into the search box\<close>













subsection \<open>Claims about the mounted list\<close>

text \<open>
  C1. The claim: whatever the sequence of events, no \<open>loadMore\<close> call is made while the
  \<open>isValidating\<close> prop is true. The observer's callback tests the \<open>isValidating\<close> it closed
  over, and the effect replaces the observer whenever \<open>isValidating\<close> changes, so the
  claim holds as long as every render keeps the trigger enabled
  (\<open>backpressure_while_trigger_enabled\<close>). It fails on the run below. The list mounts
  with more pages and no load in flight; the sentinel comes into view and \<open>loadMore\<close> is
  called. While that load is in flight (\<open>isValidating\<close> true from then on) \<open>hasMore\<close> turns
  false for one render: the cleanup disconnects the observer but \<open>observerRef\<close> keeps
  pointing to it, and the effect body returns early, registering no cleanup. When
  \<open>hasMore\<close> is true again the sentinel is mounted anew and the callback ref makes the old
  observer, whose callback still sees \<open>isValidating = false\<close>, observe it, before the effect
  creates the new one. The next time the sentinel comes into view the old observer calls
  \<open>loadMore\<close> a second time although \<open>isValidating\<close> is true. In the second run
  \<open>hasMore\<close> is false for one render while nothing is loading; from then on two
  observers observe the sentinel, a single visibility change calls \<open>loadMore\<close> twice, and
  once that load is in flight the old observer calls it again.
\<close>

theorem stale_observer_repeats_loadMore:
  "map_option loadMore_calls (outcome (fl_run no_match (fl_init sample_props)
     [Render sample_props, Intersect True,
      Render (sample_props\<lparr>hasMore := False, isValidating := True\<rparr>),
      Render (sample_props\<lparr>isValidating := True\<rparr>), Intersect True]))
   = Some [(1, False), (1, True)]
   \<and> map_option loadMore_calls (outcome (fl_run no_match (fl_init sample_props)
     [Render sample_props, Render (sample_props\<lparr>hasMore := False\<rparr>), Render sample_props,
      Intersect True, Render (sample_props\<lparr>isValidating := True\<rparr>), Intersect True]))
   = Some [(1, False), (1, False), (1, True)]"
  by code_simp

text \<open>
  C4. The claim: when \<open>hasMore\<close> is false, infinite scrolling is disabled or no \<open>loadMore\<close>
  is given, no observer observes the sentinel. When \<open>hasMore\<close> is false or infinite
  scrolling is disabled, every reachable state has no sentinel in the document and the
  observer in \<open>observerRef\<close> has no target (\<open>inert_without_hasMore\<close>). The claim fails
  through the same stale \<open>observerRef\<close> as above, in two ways.
  \<^item> After \<open>hasMore\<close> was false for one render, a render with \<open>hasMore\<close> but without
    \<open>loadMore\<close> mounts the sentinel, and the callback ref makes the old observer observe
    it, while the effect body returns early. In the state reached \<open>loadMore\<close> is absent,
    yet the observer in \<open>observerRef\<close> observes the sentinel in the document (element
    \<open>1\<close>) and calls the \<open>loadMore\<close> it closed over when the sentinel comes into view.
  \<^item> With \<open>loadMore\<close> given throughout, after \<open>hasMore\<close> went false, true and false
    again, the observer that was re-attached in between is no longer referenced and has
    never been disconnected: it still lists the removed sentinel among its targets.
\<close>

theorem stale_observer_observes_without_loadMore:
  "map_option (\<lambda>s. (loadMore (props s), hasMore (props s), loadMoreRef s,
                     map_option targets (observerRef s)))
     (outcome (fl_run no_match (fl_init sample_props)
        [Render sample_props, Render (sample_props\<lparr>hasMore := False\<rparr>),
         Render (sample_props\<lparr>loadMore := None\<rparr>)]))
   = Some (None, True, Some 1, Some [1])
   \<and> map_option loadMore_calls
     (outcome (fl_run no_match (fl_init sample_props)
        [Render sample_props, Render (sample_props\<lparr>hasMore := False\<rparr>),
         Render (sample_props\<lparr>loadMore := None\<rparr>), Intersect True]))
   = Some [(1, False)]
   \<and> map_option (\<lambda>s. (hasMore (props s), loadMoreRef s, map targets (unreferenced s)))
     (outcome (fl_run no_match (fl_init sample_props)
        [Render sample_props, Render (sample_props\<lparr>hasMore := False\<rparr>),
         Render sample_props, Render (sample_props\<lparr>hasMore := False\<rparr>)]))
   = Some (False, None, [[1]])"
  by code_simp




subsection \<open>Claims about the debounced search\<close>





end
